theory Spec2Isabelle
  imports Complex_Main "HOL-Library.Finite_Map" "HOL-Library.FSet" "HOL-Library.Log_Nat"
begin

section \<open>Python values used by the notebook\<close>

subsection \<open>Exceptions\<close>

text \<open>
  The float division in \<^verbatim>\<open>100.0*num_pcgene_w_gos/num_pc_genes\<close> raises \<^verbatim>\<open>ZeroDivisionError\<close>,
  which CPython reports with the message \<^verbatim>\<open>float division by zero\<close>; it is the only
  exception in the model of cells 22 and 23. \<open>InputError\<close> is the error
  kind the specification asks a guard to report, with the organism it is about; the
  notebook has no \<^verbatim>\<open>raise\<close> statement, so no equation of the model of the notebook
  produces it.
\<close>

datatype py_error = ZeroDivisionError string | InputError int

subsection \<open>Floats\<close>

text \<open>
  A Python float is an IEEE 754 binary64 number. A finite float is represented by its exact
  value, a rational; infinities, NaN and the negative zero are not values of the model. The
  notebook only builds floats from \<^verbatim>\<open>100.0\<close> and from results of \<^verbatim>\<open>len\<close>, by one
  multiplication and one division, so every float that its arithmetic handles is finite and
  non-negative, and the arithmetic is modelled for such floats. Each operation rounds the
  exact result to 53 significant bits, to the nearest representable value, ties to the even
  significand. \<^verbatim>\<open>len\<close> returns at most \<open>2^63 - 1\<close>, which keeps all operands and results far
  inside the exponent range of binary64, so the exponent range itself is not part of the
  model.
\<close>

type_synonym pyfloat = rat

definition round_half_even :: "rat \<Rightarrow> int" where
  "round_half_even x =
     (let n = \<lfloor>x\<rfloor>; d = x - of_int n
      in if d < 1 / 2 then n else if 1 / 2 < d then n + 1 else if even n then n else n + 1)"

text \<open>The binary exponent of a positive rational \<open>x\<close>: the \<open>e\<close> with \<open>2^e \<le> x < 2^(e+1)\<close>.\<close>

definition binade :: "rat \<Rightarrow> int" where
  "binade x =
     (let (p, q) = quotient_of x; d = bitlen p - bitlen q
      in if 2 powi d \<le> x then d else d - 1)"

definition float_round :: "rat \<Rightarrow> pyfloat" where
  "float_round x =
     (if x = 0 then 0
      else let ulp = 2 powi (binade x - 52)
           in of_int (round_half_even (x / ulp)) * ulp)"

text \<open>\<^verbatim>\<open>float(n)\<close> for the result of \<^verbatim>\<open>len\<close>, the conversion Python applies to the int operand
  of a mixed float/int operation.\<close>

definition float_of_nat :: "nat \<Rightarrow> pyfloat" where
  "float_of_nat n = float_round (of_nat n)"

definition float_mul :: "pyfloat \<Rightarrow> pyfloat \<Rightarrow> pyfloat" where
  "float_mul a b = float_round (a * b)"

definition float_div :: "pyfloat \<Rightarrow> pyfloat \<Rightarrow> py_error + pyfloat" where
  "float_div a b =
     (if b = 0 then Inl (ZeroDivisionError ''float division by zero'')
      else Inr (float_round (a / b)))"

subsection \<open>Set objects and the dictionary of associations\<close>

text \<open>
  The values of \<^verbatim>\<open>geneid2gos\<close> are mutable \<^verbatim>\<open>set\<close> objects, and cell 22 updates a set in place
  (\<^verbatim>\<open>|=\<close>). Set objects of GO terms therefore live in a store, addressed by references; a
  dictionary from GeneIDs to sets maps each key to a reference. A new object gets the next
  free address. Python has no dangling reference: every reference that a dictionary of the
  notebook holds points to an object of the store, which \<open>wf_refs\<close> below states.
\<close>

type_synonym ref = nat
type_synonym 't heap = "'t fset list"
type_synonym 'g geneid2gos = "('g, ref) fmap"

text \<open>\<^verbatim>\<open>set()\<close>\<close>

definition new_set :: "'t heap \<Rightarrow> ref \<times> 't heap" where
  "new_set h = (length h, h @ [{||}])"

text \<open>\<^verbatim>\<open>a |= b\<close> on two set objects: \<open>a\<close> is updated in place.\<close>

definition set_ior :: "ref \<Rightarrow> ref \<Rightarrow> 't heap \<Rightarrow> 't heap" where
  "set_ior a b h = h[a := h ! a |\<union>| h ! b]"

text \<open>\<^verbatim>\<open>d[k]\<close> on a \<^verbatim>\<open>defaultdict(set)\<close>: a missing key is inserted with a new empty set.\<close>

definition dd_getitem :: "'g geneid2gos \<Rightarrow> 'g \<Rightarrow> 't heap \<Rightarrow> ref \<times> 'g geneid2gos \<times> 't heap" where
  "dd_getitem d k h =
     (case fmlookup d k of
        Some r \<Rightarrow> (r, d, h)
      | None \<Rightarrow> (let (r, h') = new_set h in (r, fmupd k r d, h')))"

text \<open>Every reference held by the dictionary points to an object of the store.\<close>

definition wf_refs :: "'g geneid2gos \<Rightarrow> 't heap \<Rightarrow> bool" where
  "wf_refs d h = fBall (fmran d) (\<lambda>r. r < length h)"

text \<open>The annotation map that a dictionary and a store stand for: GeneID to set of GO terms.\<close>

definition annotation_map :: "'g geneid2gos \<Rightarrow> 't heap \<Rightarrow> ('g, 't fset) fmap" where
  "annotation_map d h = fmmap (\<lambda>r. h ! r) d"

section \<open>Cell 22: the coverage of one organism\<close>

record NtCov =
  taxid :: int
  num_GOs :: nat
  num_covgenes :: nat
  coverage :: pyfloat
  num_allgenes :: nat

text \<open>
  \<^verbatim>\<open>for geneid in pcgene_w_gos: gos_pcgenes |= geneid2gos[geneid]\<close>, over the genes in the
  order the iteration yields them.
\<close>

fun gos_loop :: "ref \<Rightarrow> 'g list \<Rightarrow> 'g geneid2gos \<times> 't heap \<Rightarrow> 'g geneid2gos \<times> 't heap" where
  "gos_loop gos_pcgenes [] (d, h) = (d, h)"
| "gos_loop gos_pcgenes (geneid # rest) (d, h) =
     (let (r, d', h') = dd_getitem d geneid h
      in gos_loop gos_pcgenes rest (d', set_ior gos_pcgenes r h'))"

text \<open>
  The body of the loop of cell 22 after the lookup of \<^verbatim>\<open>geneid2gos\<close> (lines 133 to 146),
  for one organism: the result is the exception or the \<^verbatim>\<open>NtCov\<close> tuple, together with the
  dictionary and the store as the statements leave them. A Python set iterates in the
  order of its hash table; the model iterates in increasing order of the GeneIDs.
\<close>

definition compute ::
  "int \<Rightarrow> ('g::linorder) geneid2gos \<Rightarrow> ('g, 'n) fmap \<Rightarrow> 't heap
     \<Rightarrow> (py_error + NtCov) \<times> 'g geneid2gos \<times> 't heap" where
  "compute tx geneid2gos pcGeneID2nt h =
     (let pcgene_w_gos = fmdom geneid2gos |\<inter>| fmdom pcGeneID2nt;
          num_pcgene_w_gos = fcard pcgene_w_gos;
          num_pc_genes = fcard (fmdom pcGeneID2nt);
          (gos_pcgenes, h1) = new_set h;
          (geneid2gos', h2) =
             gos_loop gos_pcgenes (sorted_list_of_fset pcgene_w_gos) (geneid2gos, h1)
      in case float_div (float_mul 100 (float_of_nat num_pcgene_w_gos))
                (float_of_nat num_pc_genes) of
           Inl e \<Rightarrow> (Inl e, geneid2gos', h2)
         | Inr cov \<Rightarrow>
             (Inr \<lparr>taxid = tx,
                   num_GOs = fcard (h2 ! gos_pcgenes),
                   num_covgenes = num_pcgene_w_gos,
                   coverage = cov,
                   num_allgenes = num_pc_genes\<rparr>,
              geneid2gos', h2))"

text \<open>
  \<^verbatim>\<open>d[k]\<close> on a \<^verbatim>\<open>defaultdict\<close> whose values are dictionaries: a missing key is inserted
  with the value the default factory returns.
\<close>

definition defaultdict_getitem :: "'v \<Rightarrow> ('k, 'v) fmap \<Rightarrow> 'k \<Rightarrow> 'v \<times> ('k, 'v) fmap" where
  "defaultdict_getitem dflt d k =
     (case fmlookup d k of
        Some v \<Rightarrow> (v, d)
      | None \<Rightarrow> (dflt, fmupd k dflt d))"

text \<open>
  Dictionaries are values of the model. A dictionary object that was reached under a key of
  another dictionary and has been changed since is stored back under that key. Storing back
  replaces the value of a key that the dictionary has; it never adds a key.
\<close>

definition store_back :: "'k \<Rightarrow> 'v \<Rightarrow> ('k, 'v) fmap \<Rightarrow> ('k, 'v) fmap" where
  "store_back k v d = (if k |\<in>| fmdom d then fmupd k v d else d)"

text \<open>
  \<^verbatim>\<open>taxid2asscs = defaultdict(lambda: defaultdict(lambda: defaultdict(set)))\<close>, the store of
  associations.
\<close>

type_synonym 'g asscs_store = "(int, (string, 'g geneid2gos) fmap) fmap"

text \<open>
  Line 131, \<^verbatim>\<open>geneid2gos = taxid2asscs[taxid]['GeneID2GOs']\<close>: two lookups on default
  dictionaries, the second on the object that the first returns. The result is the
  dictionary found or created, and the store as the two lookups leave it.
\<close>

definition lookup_GeneID2GOs :: "int \<Rightarrow> 'g asscs_store \<Rightarrow> 'g geneid2gos \<times> 'g asscs_store" where
  "lookup_GeneID2GOs tx t2a =
     (let (asscs, t2a') = defaultdict_getitem fmempty t2a tx;
          (geneid2gos, asscs') = defaultdict_getitem fmempty asscs ''GeneID2GOs''
      in (geneid2gos, store_back tx asscs' t2a'))"

text \<open>
  The object \<^verbatim>\<open>geneid2gos\<close> is the one held at \<^verbatim>\<open>taxid2asscs[taxid]['GeneID2GOs']\<close>: what the
  statements after line 131 do to it is stored back there.
\<close>

definition store_GeneID2GOs :: "int \<Rightarrow> 'g geneid2gos \<Rightarrow> 'g asscs_store \<Rightarrow> 'g asscs_store" where
  "store_GeneID2GOs tx geneid2gos t2a =
     (case fmlookup t2a tx of
        None \<Rightarrow> t2a
      | Some asscs \<Rightarrow> fmupd tx (store_back ''GeneID2GOs'' geneid2gos asscs) t2a)"

text \<open>
  The variables of the notebook that cell 22 reads and writes: the store of associations,
  the set objects, the list \<^verbatim>\<open>lst\<close> of organisms with their protein-coding genes, and
  \<^verbatim>\<open>cov_data\<close>.
\<close>

record ('g, 't, 'n) notebook =
  taxid2asscs :: "'g asscs_store"
  objs :: "'t heap"
  lst :: "(int \<times> ('g, 'n) fmap) list"
  cov_data :: "NtCov list"

text \<open>
  One iteration of \<^verbatim>\<open>for taxid, pcGeneID2nt in lst\<close> (lines 131 to 146). An exception ends
  the cell; the variables keep what the statements before it did.
\<close>

definition cov_body ::
  "int \<Rightarrow> ('g::linorder, 'n) fmap \<Rightarrow> ('g, 't, 'n) notebook
     \<Rightarrow> py_error option \<times> ('g, 't, 'n) notebook" where
  "cov_body tx pcGeneID2nt st =
     (let (geneid2gos, t2a) = lookup_GeneID2GOs tx (taxid2asscs st);
          (res, geneid2gos', h') = compute tx geneid2gos pcGeneID2nt (objs st);
          st' = st\<lparr>taxid2asscs := store_GeneID2GOs tx geneid2gos' t2a, objs := h'\<rparr>
      in case res of
           Inl e \<Rightarrow> (Some e, st')
         | Inr nt \<Rightarrow> (None, st'\<lparr>cov_data := cov_data st' @ [nt]\<rparr>))"

fun cov_loop ::
  "(int \<times> ('g::linorder, 'n) fmap) list \<Rightarrow> ('g, 't, 'n) notebook
     \<Rightarrow> py_error option \<times> ('g, 't, 'n) notebook" where
  "cov_loop [] st = (None, st)"
| "cov_loop ((tx, pcGeneID2nt) # rest) st =
     (case cov_body tx pcGeneID2nt st of
        (Some e, st') \<Rightarrow> (Some e, st')
      | (None, st') \<Rightarrow> cov_loop rest st')"

definition cell22 ::
  "('g::linorder, 't, 'n) notebook \<Rightarrow> py_error option \<times> ('g, 't, 'n) notebook" where
  "cell22 st = cov_loop (lst st) (st\<lparr>cov_data := []\<rparr>)"

section \<open>Cell 23: the report\<close>

subsection \<open>Formatting numbers\<close>

definition digit_char :: "nat \<Rightarrow> char" where
  "digit_char d = ''0123456789'' ! d"

text \<open>\<^verbatim>\<open>str(n)\<close> for \<open>n \<ge> 0\<close>\<close>

fun decimal :: "nat \<Rightarrow> string" where
  "decimal n = (if n < 10 then [digit_char n] else decimal (n div 10) @ [digit_char (n mod 10)])"

declare decimal.simps [simp del]

text \<open>The thousands separator of the \<^verbatim>\<open>,\<close> option, on the digits from the least significant.\<close>

fun group3 :: "string \<Rightarrow> string" where
  "group3 (a # b # c # d # rest) = a # b # c # CHR '','' # group3 (d # rest)"
| "group3 ds = ds"

definition commas :: "string \<Rightarrow> string" where
  "commas ds = rev (group3 (rev ds))"

definition rjust :: "nat \<Rightarrow> string \<Rightarrow> string" where
  "rjust w s = replicate (w - length s) CHR '' '' @ s"

text \<open>
  \<^verbatim>\<open>format(i, '>w')\<close> and, with the \<^verbatim>\<open>,\<close> option, \<^verbatim>\<open>format(i, '>w,')\<close> for an int: the sign of
  a negative int, then its decimal digits, grouped under the option, the whole padded on
  the left with spaces to the width.
\<close>

definition format_int :: "nat \<Rightarrow> bool \<Rightarrow> int \<Rightarrow> string" where
  "format_int w grp i =
     (let ds = decimal (nat \<bar>i\<bar>);
          body = (if grp then commas ds else ds)
      in rjust w (if i < 0 then CHR ''-'' # body else body))"

text \<open>
  \<^verbatim>\<open>format(x, 'w.pf')\<close> for a float: fixed point with \<open>p\<close> digits after the point, correctly
  rounded from the exact value of the float, ties to even. The sign of a negative float
  comes first, also when all the digits printed are zero. The default alignment of a
  number pads on the left.
\<close>

definition format_fixed :: "nat \<Rightarrow> nat \<Rightarrow> pyfloat \<Rightarrow> string" where
  "format_fixed w p x =
     (let m = nat (round_half_even (\<bar>x\<bar> * 10 ^ p));
          frac = decimal (m mod 10 ^ p);
          body = decimal (m div 10 ^ p) @
                 (if p = 0 then [] else CHR ''.'' # replicate (p - length frac) CHR ''0'' @ frac)
      in rjust w (if x < 0 then CHR ''-'' # body else body))"

subsection \<open>The format string and the rows\<close>

text \<open>
  \<^verbatim>\<open>fmtstr.format(TAXID=..., N=..., M=..., COV=..., TOT=...)\<close> for
  \<^verbatim>\<open>fmtstr = "{TAXID:>6} {N:>6,} {M:>7,}  {COV:2.0f}% GO coverage of {TOT:,} protein-coding genes"\<close>:
  each replacement field is the keyword argument of its name under its format
  specification, between the literal texts. The call of line 182 gives the five keyword
  arguments, four ints and the float, and formatting them raises nothing.
\<close>

definition fmtstr_format :: "int \<Rightarrow> int \<Rightarrow> int \<Rightarrow> pyfloat \<Rightarrow> int \<Rightarrow> string" where
  "fmtstr_format TAXID N M COV TOT =
     format_int 6 False TAXID @ '' '' @
     format_int 6 True N @ '' '' @
     format_int 7 True M @ ''  '' @
     format_fixed 2 0 COV @ ''% GO coverage of '' @
     format_int 0 True TOT @ '' protein-coding genes''"

definition report_row :: "NtCov \<Rightarrow> string" where
  "report_row nt =
     fmtstr_format (taxid nt) (int (num_GOs nt)) (int (num_covgenes nt)) (coverage nt)
       (int (num_allgenes nt))"

text \<open>\<^verbatim>\<open>for nt in cov_data: print(...)\<close>, after the lines printed so far.\<close>

fun report_loop :: "NtCov list \<Rightarrow> string list \<Rightarrow> string list" where
  "report_loop [] out = out"
| "report_loop (nt # rest) out = report_loop rest (out @ [report_row nt])"

text \<open>Cell 23: the lines printed.\<close>

definition report :: "NtCov list \<Rightarrow> string list" where
  "report cov =
     report_loop cov
       ['' taxid    GOs GeneIDs Coverage'',
        ''------ ------ ------- ----------------------'']"

section \<open>The wording of the specification, for comparison\<close>

text \<open>
  The specification asks \<open>compute\<close> to check its precondition and to report an
  \<open>InputError\<close> for an empty set of protein-coding genes, before any arithmetic.
\<close>

definition guarded_compute ::
  "int \<Rightarrow> ('g::linorder) geneid2gos \<Rightarrow> ('g, 'n) fmap \<Rightarrow> 't heap
     \<Rightarrow> (py_error + NtCov) \<times> 'g geneid2gos \<times> 't heap" where
  "guarded_compute tx geneid2gos pcGeneID2nt h =
     (if fmdom pcGeneID2nt = {||}
      then (Inl (InputError tx), geneid2gos, h)
      else compute tx geneid2gos pcGeneID2nt h)"

text \<open>
  The row in the form the specification gives:
  \<^verbatim>\<open><organism> terms=<N comma-grouped> covered=<M comma-grouped> <COV>% coverage of <TOT comma-grouped> protein-coding genes\<close>,
  with the organism right-aligned as \<^verbatim>\<open>fmtstr\<close> aligns it, the three counts comma-grouped and
  the coverage rounded to zero decimal places.
\<close>

definition spec_row :: "NtCov \<Rightarrow> string" where
  "spec_row nt =
     format_int 6 False (taxid nt) @
     '' terms='' @ format_int 0 True (int (num_GOs nt)) @
     '' covered='' @ format_int 0 True (int (num_covgenes nt)) @
     '' '' @ format_fixed 0 0 (coverage nt) @
     ''% coverage of '' @ format_int 0 True (int (num_allgenes nt)) @
     '' protein-coding genes''"

definition spec_rows :: "NtCov list \<Rightarrow> string list" where
  "spec_rows cov = map spec_row cov"

section \<open>Example inputs\<close>

text \<open>
  The scenario of the specification: \<^verbatim>\<open>protein_coding_ids = {1,2,3,4}\<close> and
  \<^verbatim>\<open>annotation_map = {1: {"GO:A","GO:B"}, 2: {"GO:A"}, 5: {"GO:C"}}\<close>, the three sets being the
  objects at the addresses 0, 1 and 2.
\<close>

definition example_geneid2gos :: "int geneid2gos" where
  "example_geneid2gos = fmap_of_list [(1, 0), (2, 1), (5, 2)]"

definition example_objs :: "string heap" where
  "example_objs = [{|''GO:A'', ''GO:B''|}, {|''GO:A''|}, {|''GO:C''|}]"

definition example_pcGeneID2nt :: "(int, unit) fmap" where
  "example_pcGeneID2nt = fmap_of_list [(1, ()), (2, ()), (3, ()), (4, ())]"

text \<open>The same annotations with one more gene, 3 or 7, that has the term \<^verbatim>\<open>GO:D\<close>.\<close>

definition example_objs_more :: "string heap" where
  "example_objs_more = example_objs @ [{|''GO:D''|}]"

definition example_notebook :: "(int, string, unit) notebook" where
  "example_notebook =
     \<lparr>taxid2asscs = fmap_of_list [(9606, fmap_of_list [(''GeneID2GOs'', example_geneid2gos)])],
      objs = example_objs,
      lst = [(9606, example_pcGeneID2nt), (7227, example_pcGeneID2nt)],
      cov_data = []\<rparr>"

text \<open>
  The two tuples whose rows the notebook shows as the output of cell 23, for human and fly;
  the coverage is the float that line 145 computes from the two counts.
\<close>

definition example_human :: NtCov where
  "example_human =
     \<lparr>taxid = 9606, num_GOs = 16436, num_covgenes = 18273,
      coverage = float_round (float_mul 100 (float_of_nat 18273) / float_of_nat 20913),
      num_allgenes = 20913\<rparr>"

definition example_fly :: NtCov where
  "example_fly =
     \<lparr>taxid = 7227, num_GOs = 6995, num_covgenes = 10591,
      coverage = float_round (float_mul 100 (float_of_nat 10591) / float_of_nat 13919),
      num_allgenes = 13919\<rparr>"

text \<open>
  An organism with 487166732731899 protein-coding genes, numbered from 0, all of them
  annotated with the one set object of the store.
\<close>

definition huge_pcGeneID2nt :: "(nat, unit) fmap" where
  "huge_pcGeneID2nt = fmap_of_list (map (\<lambda>g. (g, ())) [0..<487166732731899])"

definition huge_geneid2gos :: "nat geneid2gos" where
  "huge_geneid2gos = fmap_of_list (map (\<lambda>g. (g, 0)) [0..<487166732731899])"

definition huge_objs :: "string heap" where
  "huge_objs = [{|''GO:A''|}]"

section \<open>Properties of the float operations\<close>

lemma round_half_even_of_int: "round_half_even (of_int k) = k"
  by (simp add: round_half_even_def)

lemma round_half_even_ge_floor: "\<lfloor>x\<rfloor> \<le> round_half_even x"
  by (simp add: round_half_even_def Let_def)

lemma round_half_even_le_floor1: "round_half_even x \<le> \<lfloor>x\<rfloor> + 1"
  by (simp add: round_half_even_def Let_def)

lemma round_half_even_le_int: "x \<le> of_int k \<Longrightarrow> round_half_even x \<le> k"
proof -
  assume a: "x \<le> of_int k"
  show ?thesis
  proof (cases "x = of_int k")
    case True
    then show ?thesis by (simp add: round_half_even_of_int)
  next
    case False
    with a have "x < of_int k" by simp
    then have "\<lfloor>x\<rfloor> < k" by (simp add: floor_less_iff)
    with round_half_even_le_floor1 [of x] show ?thesis by linarith
  qed
qed

lemma round_half_even_ge_int: "of_int k \<le> x \<Longrightarrow> k \<le> round_half_even x"
proof -
  assume "of_int k \<le> x"
  then have "k \<le> \<lfloor>x\<rfloor>" by (simp add: le_floor_iff)
  with round_half_even_ge_floor [of x] show ?thesis by linarith
qed

lemma round_half_even_mono:
  assumes "x \<le> y"
  shows "round_half_even x \<le> round_half_even y"
proof (cases "\<lfloor>x\<rfloor> = \<lfloor>y\<rfloor>")
  case True
  with assms show ?thesis
    by (auto simp: round_half_even_def Let_def)
next
  case False
  with assms have "\<lfloor>x\<rfloor> + 1 \<le> \<lfloor>y\<rfloor>"
    using floor_mono [OF assms] by linarith
  with round_half_even_le_floor1 [of x] round_half_even_ge_floor [of y]
  show ?thesis by linarith
qed

lemma binade_bounds:
  assumes "0 < x"
  shows "2 powi binade x \<le> x \<and> x < 2 powi (binade x + 1)"
proof -
  obtain p q where pq: "quotient_of x = (p, q)" by (cases "quotient_of x")
  then have q: "0 < q" and x: "x = of_int p / of_int q"
    by (auto dest: quotient_of_denom_pos quotient_of_div)
  with assms have p: "0 < p" by (simp add: zero_less_divide_iff)
  define d where "d = bitlen p - bitlen q"
  have bp: "2 ^ nat (bitlen p - 1) \<le> p" "p < 2 ^ nat (bitlen p)"
    using bitlen_bounds [OF p] by auto
  have bq: "2 ^ nat (bitlen q - 1) \<le> q" "q < 2 ^ nat (bitlen q)"
    using bitlen_bounds [OF q] by auto
  have lp: "1 \<le> bitlen p" and lq: "1 \<le> bitlen q"
    using p q bitlen_eq_zero_iff [of p] bitlen_eq_zero_iff [of q] bitlen_nonneg [of p] bitlen_nonneg [of q]
    by linarith+
  have P1: "(2::rat) powi (bitlen p - 1) \<le> of_int p"
  proof -
    have "(of_int (2 ^ nat (bitlen p - 1)) :: rat) \<le> of_int p"
      using bp(1) by (simp only: of_int_le_iff)
    then show ?thesis using lp by (simp add: power_int_def)
  qed
  have P2: "of_int p < (2::rat) powi (bitlen p)"
  proof -
    have "(of_int p :: rat) < of_int (2 ^ nat (bitlen p))"
      using bp(2) by (simp only: of_int_less_iff)
    then show ?thesis using lp by (simp add: power_int_def)
  qed
  have Q1: "(2::rat) powi (bitlen q - 1) \<le> of_int q"
  proof -
    have "(of_int (2 ^ nat (bitlen q - 1)) :: rat) \<le> of_int q"
      using bq(1) by (simp only: of_int_le_iff)
    then show ?thesis using lq by (simp add: power_int_def)
  qed
  have Q2: "of_int q < (2::rat) powi (bitlen q)"
  proof -
    have "(of_int q :: rat) < of_int (2 ^ nat (bitlen q))"
      using bq(2) by (simp only: of_int_less_iff)
    then show ?thesis using lq by (simp add: power_int_def)
  qed
  have qpos: "(0::rat) < of_int q" using q by simp
  have lower: "2 powi (d - 1) \<le> x"
  proof -
    have "(2::rat) powi (d - 1) * of_int q \<le> 2 powi (d - 1) * 2 powi (bitlen q)"
      using Q2 by (intro mult_left_mono) auto
    also have "\<dots> = 2 powi (bitlen p - 1)"
      by (simp add: d_def power_int_add [symmetric])
    also have "\<dots> \<le> of_int p" by (rule P1)
    finally show ?thesis using qpos by (simp add: x pos_le_divide_eq)
  qed
  have upper: "x < 2 powi (d + 1)"
  proof -
    have "(of_int p :: rat) < 2 powi (bitlen p)" by (rule P2)
    also have "\<dots> = 2 powi (d + 1) * 2 powi (bitlen q - 1)"
      by (simp add: d_def power_int_add [symmetric])
    also have "\<dots> \<le> 2 powi (d + 1) * of_int q"
      using Q1 by (intro mult_left_mono) auto
    finally show ?thesis using qpos by (simp add: x pos_divide_less_eq)
  qed
  show ?thesis
    using lower upper pq by (auto simp: binade_def d_def Let_def not_le)
qed

lemma powi2_less_imp:
  assumes "(2::rat) powi a < 2 powi b"
  shows "a < b"
proof (rule ccontr)
  assume "\<not> a < b"
  then have "b \<le> a" by simp
  then have "(2::rat) powi b \<le> 2 powi a" by (intro power_int_increasing) simp_all
  with assms show False by simp
qed

lemma binade_unique:
  assumes "2 powi e \<le> x" "x < 2 powi (e + 1)"
  shows "binade x = e"
proof -
  have x: "0 < x" using assms(1) by (meson less_le_trans zero_less_numeral zero_less_power_int)
  note b = binade_bounds [OF x]
  have "(2::rat) powi e < 2 powi (binade x + 1)" using assms(1) b by linarith
  then have 1: "e < binade x + 1" by (rule powi2_less_imp)
  have "(2::rat) powi binade x < 2 powi (e + 1)" using assms(2) b by linarith
  then have 2: "binade x < e + 1" by (rule powi2_less_imp)
  from 1 2 show ?thesis by linarith
qed

lemma binade_mono:
  assumes "0 < x" "x \<le> y"
  shows "binade x \<le> binade y"
proof -
  have y: "0 < y" using assms by linarith
  have "(2::rat) powi binade x < 2 powi (binade y + 1)"
    using binade_bounds [OF assms(1)] binade_bounds [OF y] assms(2) by linarith
  then have "binade x < binade y + 1" by (rule powi2_less_imp)
  then show ?thesis by linarith
qed

lemma float_round_pos_bounds:
  assumes "0 < x"
  shows "2 powi binade x \<le> float_round x \<and> float_round x \<le> 2 powi (binade x + 1)"
proof -
  define u :: rat where "u = 2 powi (binade x - 52)"
  have u: "0 < u" by (simp add: u_def)
  note b = binade_bounds [OF assms]
  have e1: "2 powi binade x = of_int (2 ^ 52) * u"
    by (simp add: u_def power_int_diff)
  have e2: "2 powi (binade x + 1) = of_int (2 ^ 53) * u"
    by (simp add: u_def power_int_diff power_int_add)
  have "of_int (2 ^ 52) \<le> x / u" using b u by (simp add: e1 pos_le_divide_eq)
  then have l: "2 ^ 52 \<le> round_half_even (x / u)" by (rule round_half_even_ge_int)
  have "x / u \<le> of_int (2 ^ 53)" using b u by (simp add: e2 pos_divide_le_eq)
  then have h: "round_half_even (x / u) \<le> 2 ^ 53" by (rule round_half_even_le_int)
  have fr: "float_round x = of_int (round_half_even (x / u)) * u"
    using assms by (simp add: float_round_def u_def Let_def)
  have l': "(of_int (2 ^ 52) :: rat) \<le> of_int (round_half_even (x / u))"
    using l by (simp only: of_int_le_iff)
  have h': "(of_int (round_half_even (x / u)) :: rat) \<le> of_int (2 ^ 53)"
    using h by (simp only: of_int_le_iff)
  have u0: "0 \<le> u" using u by simp
  have "of_int (2 ^ 52) * u \<le> of_int (round_half_even (x / u)) * u"
    by (rule mult_right_mono [OF l' u0])
  moreover have "of_int (round_half_even (x / u)) * u \<le> of_int (2 ^ 53) * u"
    by (rule mult_right_mono [OF h' u0])
  ultimately show ?thesis by (simp only: fr e1 e2) 
qed

lemma float_round_pos: "0 < x \<Longrightarrow> 0 < float_round x"
proof -
  assume x: "0 < x"
  have "(0::rat) < 2 powi binade x" by simp
  with float_round_pos_bounds [OF x] show ?thesis by linarith
qed

lemma float_round_nonneg: "0 \<le> x \<Longrightarrow> 0 \<le> float_round x"
proof (cases "x = 0")
  case True
  then show ?thesis by (simp add: float_round_def)
next
  case False
  assume "0 \<le> x"
  with False have x: "0 < x" by simp
  have "(0::rat) \<le> 2 powi binade x" by simp
  with float_round_pos_bounds [OF x] show ?thesis by linarith
qed

lemma float_round_mono:
  assumes "0 \<le> x" "x \<le> y"
  shows "float_round x \<le> float_round y"
proof (cases "x = 0")
  case True
  then show ?thesis using assms float_round_nonneg [of y] by (simp add: float_round_def)
next
  case False
  with assms have x: "0 < x" and y: "0 < y" by simp_all
  show ?thesis
  proof (cases "binade x = binade y")
    case True
    define u :: rat where "u = 2 powi (binade x - 52)"
    have u: "0 < u" by (simp add: u_def)
    have "x / u \<le> y / u" using assms(2) u by (simp add: divide_right_mono)
    then have "round_half_even (x / u) \<le> round_half_even (y / u)" by (rule round_half_even_mono)
    then have "(of_int (round_half_even (x / u)) :: rat) * u \<le> of_int (round_half_even (y / u)) * u"
      using u by (intro mult_right_mono) simp_all
    then show ?thesis using x y True by (simp add: float_round_def u_def Let_def)
  next
    case False
    with binade_mono [OF x assms(2)] have "binade x + 1 \<le> binade y" by linarith
    then have "(2::rat) powi (binade x + 1) \<le> 2 powi binade y"
      by (simp add: power_int_increasing)
    with float_round_pos_bounds [OF x] float_round_pos_bounds [OF y]
    show ?thesis by linarith
  qed
qed

lemma float_round_exact:
  assumes "0 < x" "x / 2 powi (binade x - 52) = of_int k"
  shows "float_round x = x"
proof -
  have "float_round x = of_int k * 2 powi (binade x - 52)"
    using assms by (simp add: float_round_def Let_def round_half_even_of_int)
  also have "\<dots> = x" using assms(2) [symmetric] by simp
  finally show ?thesis .
qed

lemma float_round_of_nat:
  assumes "n < 2 ^ 53"
  shows "float_round (of_nat n) = of_nat n"
proof (cases "n = 0")
  case True
  then show ?thesis by (simp add: float_round_def)
next
  case False
  then have x: "(0::rat) < of_nat n" by simp
  note b = binade_bounds [OF x]
  have "(of_nat n :: rat) < of_nat (2 ^ 53)" using assms by (simp only: of_nat_less_iff)
  then have "(2::rat) powi binade (of_nat n) < 2 powi 53" using b by simp
  then have "binade (of_nat n :: rat) < 53" by (rule powi2_less_imp)
  then have le: "binade (of_nat n :: rat) \<le> 52" by simp
  define j where "j = nat (52 - binade (of_nat n :: rat))"
  have "(2::rat) powi (binade (of_nat n :: rat) - 52) = 1 / 2 ^ j"
    using le by (simp add: j_def power_int_def divide_simps)
  then have "(of_nat n :: rat) / 2 powi (binade (of_nat n :: rat) - 52) = of_int (int n * 2 ^ j)"
    by simp
  then show ?thesis by (rule float_round_exact [OF x])
qed

lemma float_of_nat_exact: "n < 2 ^ 53 \<Longrightarrow> float_of_nat n = of_nat n"
  by (simp add: float_of_nat_def float_round_of_nat)

lemma float_of_nat_eq_0_iff: "float_of_nat n = 0 \<longleftrightarrow> n = 0"
proof
  assume a: "float_of_nat n = 0"
  show "n = 0"
  proof (rule ccontr)
    assume "n \<noteq> 0"
    then have "(0::rat) < of_nat n" by simp
    from float_round_pos [OF this] a show False by (simp add: float_of_nat_def)
  qed
next
  assume "n = 0"
  then show "float_of_nat n = 0" by (simp add: float_of_nat_def float_round_def)
qed

lemma float_of_nat_nonneg: "0 \<le> float_of_nat n"
  by (simp add: float_of_nat_def float_round_nonneg)

lemma float_of_nat_mono: "n \<le> n' \<Longrightarrow> float_of_nat n \<le> float_of_nat n'"
  by (simp add: float_of_nat_def float_round_mono)

lemma float_div_nonzero: "b \<noteq> 0 \<Longrightarrow> float_div a b = Inr (float_round (a / b))"
  by (simp add: float_div_def)

lemma float_div_zero: "float_div a 0 = Inl (ZeroDivisionError ''float division by zero'')"
  by (simp add: float_div_def)

lemma coverage_nonneg:
  "0 \<le> float_round (float_mul 100 (float_of_nat n) / float_of_nat m)"
proof -
  have "0 \<le> 100 * float_of_nat n" using float_of_nat_nonneg [of n] by simp
  then have "0 \<le> float_mul 100 (float_of_nat n)"
    unfolding float_mul_def by (rule float_round_nonneg)
  then have "0 \<le> float_mul 100 (float_of_nat n) / float_of_nat m"
    using float_of_nat_nonneg [of m] by simp
  then show ?thesis by (rule float_round_nonneg)
qed

lemma coverage_mono:
  assumes "n \<le> n'"
  shows "float_round (float_mul 100 (float_of_nat n) / float_of_nat m)
           \<le> float_round (float_mul 100 (float_of_nat n') / float_of_nat m)"
proof -
  have a: "0 \<le> 100 * float_of_nat n" using float_of_nat_nonneg [of n] by simp
  have "100 * float_of_nat n \<le> 100 * float_of_nat n'"
    using float_of_nat_mono [OF assms] by simp
  then have b: "float_mul 100 (float_of_nat n) \<le> float_mul 100 (float_of_nat n')"
    unfolding float_mul_def using a by (rule float_round_mono [rotated])
  have c: "0 \<le> float_mul 100 (float_of_nat n)"
    unfolding float_mul_def using a by (rule float_round_nonneg)
  have m: "0 \<le> float_of_nat m" by (rule float_of_nat_nonneg)
  have d: "0 \<le> float_mul 100 (float_of_nat n) / float_of_nat m"
    using c m by simp
  have "float_mul 100 (float_of_nat n) / float_of_nat m
          \<le> float_mul 100 (float_of_nat n') / float_of_nat m"
    using b m by (rule divide_right_mono)
  with d show ?thesis by (rule float_round_mono)
qed

lemma float_mul_100_exact:
  assumes "100 * n < 2 ^ 53"
  shows "float_mul 100 (float_of_nat n) = 100 * of_nat n"
proof -
  have n: "n < 2 ^ 53" using assms by simp
  have "float_round (of_nat (100 * n)) = of_nat (100 * n)"
    using assms by (rule float_round_of_nat)
  then show ?thesis by (simp add: float_mul_def float_of_nat_exact [OF n])
qed

lemma coverage_le_100:
  assumes "n \<le> m" "0 < m" "100 * m < 2 ^ 53"
  shows "float_round (float_mul 100 (float_of_nat n) / float_of_nat m) \<le> 100"
proof -
  have n: "100 * n < 2 ^ 53" using assms by simp
  have m: "m < 2 ^ 53" using assms by simp
  have q: "(100 * of_nat n :: rat) / of_nat m \<le> 100"
    using assms by (simp add: pos_divide_le_eq)
  have p: "(0::rat) \<le> 100 * of_nat n / of_nat m" by simp
  have "float_round (100 * of_nat n / of_nat m) \<le> float_round 100"
    using p q by (rule float_round_mono)
  moreover have "float_round 100 = 100"
    using float_round_of_nat [of 100] by simp
  ultimately show ?thesis
    by (simp add: float_mul_100_exact [OF n] float_of_nat_exact [OF m])
qed

section \<open>Properties of cell 22\<close>

lemma dd_getitem_present:
  "fmlookup d k = Some r \<Longrightarrow> dd_getitem d k h = (r, d, h)"
  by (simp add: dd_getitem_def)

lemma gos_loop_present:
  assumes "\<forall>g \<in> set xs. \<exists>r. fmlookup d g = Some r \<and> r \<noteq> gos"
  shows "gos_loop gos xs (d, h) =
           (d, h[gos := h ! gos |\<union>| ffUnion ((\<lambda>g. h ! the (fmlookup d g)) |`| fset_of_list xs)])"
  using assms
proof (induction xs arbitrary: h)
  case Nil
  then show ?case by simp
next
  case (Cons g xs)
  from Cons.prems obtain r where r: "fmlookup d g = Some r" "r \<noteq> gos" by auto
  from Cons.prems have rest: "\<forall>g \<in> set xs. \<exists>r. fmlookup d g = Some r \<and> r \<noteq> gos" by simp
  define h' where "h' = set_ior gos r h"
  have step: "gos_loop gos (g # xs) (d, h) = gos_loop gos xs (d, h')"
    by (simp add: dd_getitem_present [OF r(1)] h'_def)
  have other: "h' ! a = h ! a" if "a \<noteq> gos" for a
    using that by (simp add: h'_def set_ior_def)
  have same: "(\<lambda>g. h' ! the (fmlookup d g)) |`| fset_of_list xs
                = (\<lambda>g. h ! the (fmlookup d g)) |`| fset_of_list xs"
  proof (rule fset.map_cong0)
    fix z assume "z \<in> fset (fset_of_list xs)"
    then have "z \<in> set xs" by (simp add: fset_of_list.rep_eq)
    with rest obtain rz where "fmlookup d z = Some rz" "rz \<noteq> gos" by auto
    then show "h' ! the (fmlookup d z) = h ! the (fmlookup d z)" by (simp add: other)
  qed
  show ?case
  proof (cases "gos < length h")
    case True
    then have g: "h' ! gos = h ! gos |\<union>| h ! r" by (simp add: h'_def set_ior_def)
    have "h'[gos := h' ! gos |\<union>| ffUnion ((\<lambda>g. h' ! the (fmlookup d g)) |`| fset_of_list xs)]
            = h'[gos := (h ! gos |\<union>| h ! r) |\<union>| ffUnion ((\<lambda>g. h ! the (fmlookup d g)) |`| fset_of_list xs)]"
      by (simp only: same g)
    also have "\<dots> = h[gos := h ! gos |\<union>| ffUnion ((\<lambda>g. h ! the (fmlookup d g)) |`| fset_of_list (g # xs))]"
      by (simp add: r(1) h'_def set_ior_def funion_assoc)
    finally have "h'[gos := h' ! gos |\<union>| ffUnion ((\<lambda>g. h' ! the (fmlookup d g)) |`| fset_of_list xs)]
            = h[gos := h ! gos |\<union>| ffUnion ((\<lambda>g. h ! the (fmlookup d g)) |`| fset_of_list (g # xs))]" .
    then show ?thesis by (simp only: step Cons.IH [OF rest])
  next
    case False
    then have oob: "length h \<le> gos" by simp
    then have eq: "h' = h" by (simp add: h'_def set_ior_def list_update_beyond)
    have "gos_loop gos (g # xs) (d, h) = gos_loop gos xs (d, h)"
      using step by (simp only: eq)
    also have "\<dots> = (d, h)"
      using oob by (simp only: Cons.IH [OF rest] list_update_beyond)
    finally show ?thesis using oob by (simp only: list_update_beyond)
  qed
qed

text \<open>The order in which the loop visits the genes does not matter.\<close>

lemma gos_loop_order:
  assumes "\<forall>g \<in> set xs. \<exists>r. fmlookup d g = Some r \<and> r \<noteq> gos" "set ys = set xs"
  shows "gos_loop gos ys (d, h) = gos_loop gos xs (d, h)"
proof -
  have ys: "\<forall>g \<in> set ys. \<exists>r. fmlookup d g = Some r \<and> r \<noteq> gos"
    using assms by simp
  have "fset_of_list ys = fset_of_list xs"
    using assms(2) by (simp add: fset_of_list.rep_eq fset_inject [symmetric])
  then show ?thesis
    by (simp only: gos_loop_present [OF assms(1)] gos_loop_present [OF ys])
qed

lemma wf_refs_lookup: "wf_refs d h \<Longrightarrow> fmlookup d g = Some r \<Longrightarrow> r < length h"
  by (auto simp: wf_refs_def dest: fmranI)

lemma wf_refs_empty: "wf_refs fmempty h"
  by (simp add: wf_refs_def)

text \<open>The set of GO terms of the genes of \<open>S\<close>, as the dictionary and the store give them.\<close>

lemma compute_eq:
  assumes wf: "wf_refs d h"
  shows "compute tx d pc h =
           (let cov = fmdom d |\<inter>| fmdom pc;
                gos = ffUnion ((\<lambda>g. h ! the (fmlookup d g)) |`| cov)
            in (case float_div (float_mul 100 (float_of_nat (fcard cov)))
                       (float_of_nat (fcard (fmdom pc))) of
                  Inl e \<Rightarrow> Inl e
                | Inr c \<Rightarrow> Inr \<lparr>taxid = tx, num_GOs = fcard gos, num_covgenes = fcard cov,
                               coverage = c, num_allgenes = fcard (fmdom pc)\<rparr>,
                d, h @ [gos]))"
proof -
  define cov where "cov = fmdom d |\<inter>| fmdom pc"
  define gos where "gos = ffUnion ((\<lambda>g. h ! the (fmlookup d g)) |`| cov)"
  have keys: "\<forall>g \<in> set (sorted_list_of_fset cov). \<exists>r. fmlookup d g = Some r \<and> r \<noteq> length h"
  proof
    fix g assume "g \<in> set (sorted_list_of_fset cov)"
    then have "g |\<in>| fmdom d" by (simp add: cov_def)
    then obtain r where r: "fmlookup d g = Some r" by (auto simp: fmlookup_dom_iff)
    with wf_refs_lookup [OF wf r] show "\<exists>r. fmlookup d g = Some r \<and> r \<noteq> length h" by auto
  qed
  have same: "(\<lambda>g. (h @ [{||}]) ! the (fmlookup d g)) |`| cov = (\<lambda>g. h ! the (fmlookup d g)) |`| cov"
  proof (rule fset.map_cong0)
    fix z assume "z \<in> fset cov"
    then have "z |\<in>| fmdom d" by (simp add: cov_def)
    then obtain r where r: "fmlookup d z = Some r" by (auto simp: fmlookup_dom_iff)
    with wf_refs_lookup [OF wf r]
    show "(h @ [{||}]) ! the (fmlookup d z) = h ! the (fmlookup d z)" by (simp add: nth_append)
  qed
  have loop: "gos_loop (length h) (sorted_list_of_fset cov) (d, h @ [{||}]) = (d, h @ [gos])"
    by (simp add: gos_loop_present [OF keys] same gos_def)
  show ?thesis
    by (simp add: compute_def new_set_def Let_def loop cov_def [symmetric] gos_def [symmetric]
          split: sum.split)
qed

lemma fmdom_annotation_map: "fmdom (annotation_map d h) = fmdom d"
proof (rule fset_eqI)
  fix g show "g |\<in>| fmdom (annotation_map d h) \<longleftrightarrow> g |\<in>| fmdom d"
    by (simp add: fmlookup_dom_iff annotation_map_def)
qed

lemma annotation_map_lookup:
  "g |\<in>| fmdom d \<Longrightarrow> the (fmlookup (annotation_map d h) g) = h ! the (fmlookup d g)"
  by (auto simp: annotation_map_def fmlookup_dom_iff)

lemma annotated_terms_eq:
  "(\<lambda>g. the (fmlookup (annotation_map d h) g)) |`| (fmdom d |\<inter>| S)
     = (\<lambda>g. h ! the (fmlookup d g)) |`| (fmdom d |\<inter>| S)"
  by (rule fset.map_cong0) (simp add: annotation_map_lookup)

lemma annotation_map_append:
  assumes "wf_refs d h"
  shows "annotation_map d (h @ hs) = annotation_map d h"
proof (rule fmap_ext)
  fix g
  show "fmlookup (annotation_map d (h @ hs)) g = fmlookup (annotation_map d h) g"
  proof (cases "fmlookup d g")
    case None
    then show ?thesis by (simp add: annotation_map_def)
  next
    case (Some r)
    with wf_refs_lookup [OF assms Some] show ?thesis
      by (simp add: annotation_map_def nth_append)
  qed
qed

lemma covered_terms_cong:
  assumes "\<And>x. x |\<in>| S \<Longrightarrow> fmlookup am2 x = fmlookup am x"
  shows "(\<lambda>g. the (fmlookup am2 g)) |`| S = (\<lambda>g. the (fmlookup am g)) |`| S"
  by (rule fset.map_cong0) (simp add: assms)

lemma compute_fst_empty:
  assumes "fmdom pc = {||}"
  shows "fst (compute tx d pc h) = Inl (ZeroDivisionError ''float division by zero'')"
proof -
  have "float_of_nat (fcard (fmdom pc)) = 0" using assms by (simp add: float_of_nat_eq_0_iff)
  then show ?thesis
    by (simp add: compute_def Let_def float_div_zero split: prod.split)
qed

lemma compute_fst_fields:
  assumes "fmdom pc \<noteq> {||}"
  shows "\<exists>nt. fst (compute tx d pc h) = Inr nt
           \<and> taxid nt = tx
           \<and> num_covgenes nt = fcard (fmdom d |\<inter>| fmdom pc)
           \<and> num_allgenes nt = fcard (fmdom pc)
           \<and> coverage nt = float_round (float_mul 100 (float_of_nat (fcard (fmdom d |\<inter>| fmdom pc)))
                                          / float_of_nat (fcard (fmdom pc)))"
proof -
  have "float_of_nat (fcard (fmdom pc)) \<noteq> 0" using assms by (simp add: float_of_nat_eq_0_iff)
  then show ?thesis
    by (simp add: compute_def Let_def float_div_nonzero split: prod.split)
qed

lemma compute_wf:
  assumes "wf_refs d h" "fmdom pc \<noteq> {||}"
  shows "compute tx d pc h =
           (Inr \<lparr>taxid = tx,
                 num_GOs = fcard (ffUnion ((\<lambda>g. the (fmlookup (annotation_map d h) g)) |`|
                                    (fmdom (annotation_map d h) |\<inter>| fmdom pc))),
                 num_covgenes = fcard (fmdom (annotation_map d h) |\<inter>| fmdom pc),
                 coverage = float_round (float_mul 100
                              (float_of_nat (fcard (fmdom (annotation_map d h) |\<inter>| fmdom pc)))
                                / float_of_nat (fcard (fmdom pc))),
                 num_allgenes = fcard (fmdom pc)\<rparr>,
            d,
            h @ [ffUnion ((\<lambda>g. the (fmlookup (annotation_map d h) g)) |`|
                   (fmdom (annotation_map d h) |\<inter>| fmdom pc))])"
proof -
  have "float_of_nat (fcard (fmdom pc)) \<noteq> 0" using assms(2) by (simp add: float_of_nat_eq_0_iff)
  then show ?thesis
    by (simp add: compute_eq [OF assms(1)] Let_def float_div_nonzero fmdom_annotation_map
          annotated_terms_eq)
qed

lemma compute_frame:
  assumes "wf_refs d h"
  shows "\<exists>res gos. compute tx d pc h = (res, d, h @ [gos])"
  by (simp add: compute_eq [OF assms] Let_def)

lemma compute_no_annotations:
  assumes "fmdom pc \<noteq> {||}"
  shows "compute tx fmempty pc h =
           (Inr \<lparr>taxid = tx, num_GOs = 0, num_covgenes = 0, coverage = 0,
                 num_allgenes = fcard (fmdom pc)\<rparr>, fmempty, h @ [{||}])"
proof -
  have "float_mul 100 (float_of_nat 0) = 0"
    by (simp add: float_mul_def float_of_nat_def float_round_def)
  then have "float_round (float_mul 100 (float_of_nat 0) / float_of_nat (fcard (fmdom pc))) = 0"
    by (simp add: float_round_def)
  then show ?thesis
    by (simp add: compute_wf [OF wf_refs_empty assms] fmdom_annotation_map fcard_fempty)
qed

lemma fmupd_twice: "fmupd k v (fmupd k w m) = fmupd k v m"
  by (rule fmap_ext) simp

lemma store_back_present: "k |\<in>| fmdom d \<Longrightarrow> store_back k v d = fmupd k v d"
  by (simp add: store_back_def)

lemma store_back_absent: "k |\<notin>| fmdom d \<Longrightarrow> store_back k v d = d"
  by (simp add: store_back_def)

lemma lookup_GeneID2GOs_missing:
  assumes "fmlookup t2a tx = None"
  shows "lookup_GeneID2GOs tx t2a = (fmempty, fmupd tx (fmupd ''GeneID2GOs'' fmempty fmempty) t2a)"
  using assms
  by (simp add: lookup_GeneID2GOs_def defaultdict_getitem_def store_back_def fmupd_twice)

lemma store_GeneID2GOs_same:
  "store_GeneID2GOs tx g2g (fmupd tx (fmupd ''GeneID2GOs'' g2g asscs) t2a)
     = fmupd tx (fmupd ''GeneID2GOs'' g2g asscs) t2a"
  by (simp add: store_GeneID2GOs_def store_back_def fmupd_twice)

lemma cov_body_alt:
  "cov_body tx pc st =
     (let l = lookup_GeneID2GOs tx (taxid2asscs st);
          c = compute tx (fst l) pc (objs st);
          st' = st\<lparr>taxid2asscs := store_GeneID2GOs tx (fst (snd c)) (snd l),
                  objs := snd (snd c)\<rparr>
      in case fst c of
           Inl e \<Rightarrow> (Some e, st')
         | Inr nt \<Rightarrow> (None, st'\<lparr>cov_data := cov_data st @ [nt]\<rparr>))"
  by (simp add: cov_body_def Let_def case_prod_beta split: sum.split)

lemma cov_body_lst: "lst (snd (cov_body tx pc st)) = lst st"
  by (simp add: cov_body_alt Let_def split: sum.split)

section \<open>Properties of cell 23\<close>

lemma decimal_small: "n < 10 \<Longrightarrow> decimal n = [digit_char n]"
  by (subst decimal.simps) simp

lemma decimal_big: "10 \<le> n \<Longrightarrow> decimal n = decimal (n div 10) @ [digit_char (n mod 10)]"
  by (subst decimal.simps) simp

lemma digit_char_simps:
  "digit_char 0 = CHR ''0''" "digit_char 1 = CHR ''1''" "digit_char 2 = CHR ''2''"
  "digit_char 3 = CHR ''3''" "digit_char 4 = CHR ''4''" "digit_char 5 = CHR ''5''"
  "digit_char 6 = CHR ''6''" "digit_char 7 = CHR ''7''" "digit_char 8 = CHR ''8''"
  "digit_char 9 = CHR ''9''" "digit_char (Suc 0) = CHR ''1''"
  by (simp_all add: digit_char_def nth_Cons')

lemma replicate_2: "replicate 2 c = [c, c]"
  by (simp add: numeral_2_eq_2)

lemmas decimal_eval = decimal_small decimal_big digit_char_simps replicate_2

text \<open>The separators are the only characters that grouping adds.\<close>

lemma group3_filter:
  "CHR '','' \<notin> set ds \<Longrightarrow> filter (\<lambda>c. c \<noteq> CHR '','') (group3 ds) = ds"
  by (induction ds rule: group3.induct) auto

lemma commas_filter:
  assumes "CHR '','' \<notin> set ds"
  shows "filter (\<lambda>c. c \<noteq> CHR '','') (commas ds) = ds"
proof -
  have "filter (\<lambda>c. c \<noteq> CHR '','') (group3 (rev ds)) = rev ds"
    using assms by (intro group3_filter) simp
  then show ?thesis by (simp add: commas_def rev_filter [symmetric])
qed

lemma format_int_nat: "format_int w True (int n) = rjust w (commas (decimal n))"
  by (simp add: format_int_def)

lemma format_int_plain:
  "format_int w False i
     = rjust w (if i < 0 then CHR ''-'' # decimal (nat (- i)) else decimal (nat i))"
  by (simp add: format_int_def Let_def)

lemma format_fixed_0:
  "format_fixed w 0 x
     = rjust w (if x < 0 then CHR ''-'' # decimal (nat (round_half_even \<bar>x\<bar>))
                else decimal (nat (round_half_even \<bar>x\<bar>)))"
  by (simp add: format_fixed_def Let_def)

text \<open>The signs: what \<^verbatim>\<open>'{COV:2.0f}'\<close> prints for -12.5 and for -0.25, and for 2.5.\<close>

lemma format_fixed_examples:
  "format_fixed 2 0 (- 25 / 2) = ''-12''"
  "format_fixed 2 0 (- 1 / 4) = ''-0''"
  "format_fixed 2 0 (5 / 2) = '' 2''"
proof -
  have r: "round_half_even (25 / 2) = 12" "round_half_even (1 / 4) = 0" "round_half_even (5 / 2) = 2"
    by code_simp+
  show "format_fixed 2 0 (- 25 / 2) = ''-12''"
    by (simp add: format_fixed_0 r rjust_def decimal_eval)
  show "format_fixed 2 0 (- 1 / 4) = ''-0''"
    by (simp add: format_fixed_0 r rjust_def decimal_eval)
  show "format_fixed 2 0 (5 / 2) = '' 2''"
    by (simp add: format_fixed_0 r rjust_def decimal_eval)
qed

lemma report_row_eq:
  "report_row nt =
     rjust 6 (if taxid nt < 0 then CHR ''-'' # decimal (nat (- taxid nt))
              else decimal (nat (taxid nt))) @
     '' '' @ rjust 6 (commas (decimal (num_GOs nt))) @
     '' '' @ rjust 7 (commas (decimal (num_covgenes nt))) @
     ''  '' @ rjust 2 (if coverage nt < 0
                       then CHR ''-'' # decimal (nat (round_half_even \<bar>coverage nt\<bar>))
                       else decimal (nat (round_half_even \<bar>coverage nt\<bar>))) @
     ''% GO coverage of '' @ commas (decimal (num_allgenes nt)) @
     '' protein-coding genes''"
  by (simp only: report_row_def fmtstr_format_def format_int_nat format_int_plain format_fixed_0)
     (simp add: rjust_def)

lemma report_loop_eq: "report_loop cov out = out @ map report_row cov"
  by (induction cov arbitrary: out) simp_all

text \<open>
  A row of a tuple with a negative coverage, which cell 22 does not produce, carries the
  sign.
\<close>

lemma report_row_negative:
  "report_row \<lparr>taxid = 9606, num_GOs = 16436, num_covgenes = 18273, coverage = - 25 / 2,
               num_allgenes = 20913\<rparr>
     = ''  9606 16,436  18,273  -12% GO coverage of 20,913 protein-coding genes''"
proof -
  have r: "round_half_even (25 / 2) = 12" by code_simp
  show ?thesis
    by (simp add: report_row_eq r rjust_def commas_def decimal_eval)
qed

section \<open>The example inputs\<close>

text \<open>
  Cell 22 on the example notebook: taxid 9606 has the associations of the scenario, taxid
  7227 has none.
\<close>

lemma cell22_example:
  "fst (cell22 example_notebook) = None
   \<and> cov_data (snd (cell22 example_notebook)) =
       [\<lparr>taxid = 9606, num_GOs = 2, num_covgenes = 2, coverage = 50, num_allgenes = 4\<rparr>,
        \<lparr>taxid = 7227, num_GOs = 0, num_covgenes = 0, coverage = 0, num_allgenes = 4\<rparr>]"
  by code_simp

lemma example_human_coverage:
  "\<not> coverage example_human < 0" "round_half_even \<bar>coverage example_human\<bar> = 87"
proof -
  have a: "float_of_nat 18273 = 18273" using float_of_nat_exact [of 18273] by simp
  have b: "float_of_nat 20913 = 20913" using float_of_nat_exact [of 20913] by simp
  have c: "float_round (100 * 18273) = 1827300" by code_simp
  have d: "float_round (1827300 / 20913) = 6148558611191385 / 70368744177664" by code_simp
  have e: "round_half_even (6148558611191385 / 70368744177664) = 87" by code_simp
  have v: "coverage example_human = 6148558611191385 / 70368744177664"
    by (simp only: example_human_def NtCov.simps float_mul_def a b c d)
  show "\<not> coverage example_human < 0" unfolding v by simp
  show "round_half_even \<bar>coverage example_human\<bar> = 87" unfolding v using e by simp
qed

lemma example_fly_coverage:
  "\<not> coverage example_fly < 0" "round_half_even \<bar>coverage example_fly\<bar> = 76"
proof -
  have a: "float_of_nat 10591 = 10591" using float_of_nat_exact [of 10591] by simp
  have b: "float_of_nat 13919 = 13919" using float_of_nat_exact [of 13919] by simp
  have c: "float_round (100 * 10591) = 1059100" by code_simp
  have d: "float_round (1059100 / 13919) = 5354374377366473 / 70368744177664" by code_simp
  have e: "round_half_even (5354374377366473 / 70368744177664) = 76" by code_simp
  have v: "coverage example_fly = 5354374377366473 / 70368744177664"
    by (simp only: example_fly_def NtCov.simps float_mul_def a b c d)
  show "\<not> coverage example_fly < 0" unfolding v by simp
  show "round_half_even \<bar>coverage example_fly\<bar> = 76" unfolding v using e by simp
qed

lemma dense_fmdom: "fmdom (fmap_of_list (map (\<lambda>g. (g, v)) [0..<N])) = fset_of_list [0..<N]"
proof (rule fset_eqI)
  fix x
  show "x |\<in>| fmdom (fmap_of_list (map (\<lambda>g. (g, v)) [0..<N])) \<longleftrightarrow> x |\<in>| fset_of_list [0..<N]"
    by (simp add: fmdom_of_list fset_of_list.rep_eq image_image)
qed

lemma dense_fcard: "fcard (fset_of_list [0..<N]) = N"
  by (simp add: fcard.rep_eq fset_of_list.rep_eq)

lemma dense_fmlookup:
  "fmlookup (fmap_of_list (map (\<lambda>g. (g, v)) [0..<N])) g = (if g < N then Some v else None)"
  by (simp add: fmlookup_of_list map_of_map_restrict restrict_map_def)

lemma huge_dom_pc: "fmdom huge_pcGeneID2nt = fset_of_list [0..<487166732731899]"
  unfolding huge_pcGeneID2nt_def by (rule dense_fmdom)

lemma huge_dom_d: "fmdom huge_geneid2gos = fset_of_list [0..<487166732731899]"
  unfolding huge_geneid2gos_def by (rule dense_fmdom)

lemma huge_lookup:
  "fmlookup huge_geneid2gos g = (if g < 487166732731899 then Some 0 else None)"
  unfolding huge_geneid2gos_def by (rule dense_fmlookup)

lemma huge_wf: "wf_refs huge_geneid2gos huge_objs"
  by (auto simp: wf_refs_def fmlookup_ran_iff huge_lookup huge_objs_def split: if_splits)

lemma huge_ne: "fmdom huge_pcGeneID2nt \<noteq> {||}"
proof
  assume "fmdom huge_pcGeneID2nt = {||}"
  then have "fcard (fset_of_list [0..<487166732731899::nat]) = 0" by (simp add: huge_dom_pc)
  then show False by (simp only: dense_fcard)
qed

lemma huge_terms:
  "ffUnion ((\<lambda>g. the (fmlookup (annotation_map huge_geneid2gos huge_objs) g)) |`|
      fset_of_list [0..<487166732731899]) = {|''GO:A''|}"
proof -
  have c: "(\<lambda>g. the (fmlookup (annotation_map huge_geneid2gos huge_objs) g)) |`|
      fset_of_list [0..<487166732731899] = (\<lambda>g. {|''GO:A''|}) |`| fset_of_list [0..<487166732731899]"
  proof (rule fset.map_cong0)
    fix z :: nat assume "z \<in> fset (fset_of_list [0..<487166732731899])"
    then have "z < 487166732731899" by (simp add: fset_of_list.rep_eq)
    then show "the (fmlookup (annotation_map huge_geneid2gos huge_objs) z) = {|''GO:A''|}"
      by (simp add: annotation_map_def huge_lookup huge_objs_def)
  qed
  have m: "(0::nat) |\<in>| fset_of_list [0..<487166732731899]"
    by (simp add: fset_of_list.rep_eq)
  have "(\<lambda>g::nat. {|''GO:A''|}) |`| fset_of_list [0..<487166732731899] = {|{|''GO:A''|}|}"
    using m by auto
  with c show ?thesis by simp
qed

lemma huge_float_mul: "float_round (100 * 487166732731899) = 48716673273189904"
  by code_simp

lemma huge_float_div: "float_round (48716673273189904 / 487166732731899) = 100 + 1 / 2 ^ 46"
  by code_simp

lemma huge_coverage:
  "float_round (float_mul 100 (float_of_nat 487166732731899) / float_of_nat 487166732731899)
     = 100 + 1 / 2 ^ 46"
proof -
  have "float_of_nat 487166732731899 = 487166732731899"
    using float_of_nat_exact [of 487166732731899] by simp
  then show ?thesis
    by (simp only: float_mul_def huge_float_mul huge_float_div)
qed

section \<open>The claims of the specification\<close>

text \<open>
  C1. For every annotation map and every non-empty set of protein-coding genes, \<open>compute\<close>
  returns a tuple: its \<open>taxid\<close> is the organism given, \<open>num_covgenes\<close> is the number of genes
  that are both keys of the annotation map and protein-coding, \<open>num_allgenes\<close> is the number
  of protein-coding genes, and \<open>coverage\<close> is the float that Python computes for
  \<^verbatim>\<open>100.0 * num_covgenes / num_allgenes\<close>.
\<close>

theorem C1_compute_record:
  assumes "fmdom pcGeneID2nt \<noteq> {||}"
  shows "\<exists>nt. fst (compute tx geneid2gos pcGeneID2nt h) = Inr nt
           \<and> taxid nt = tx
           \<and> num_covgenes nt = fcard (fmdom (annotation_map geneid2gos h) |\<inter>| fmdom pcGeneID2nt)
           \<and> num_allgenes nt = fcard (fmdom pcGeneID2nt)
           \<and> float_div (float_mul 100 (float_of_nat (num_covgenes nt)))
                 (float_of_nat (num_allgenes nt)) = Inr (coverage nt)"
proof -
  from compute_fst_fields [OF assms, of tx geneid2gos h] obtain nt where
    nt: "fst (compute tx geneid2gos pcGeneID2nt h) = Inr nt" "taxid nt = tx"
      "num_covgenes nt = fcard (fmdom geneid2gos |\<inter>| fmdom pcGeneID2nt)"
      "num_allgenes nt = fcard (fmdom pcGeneID2nt)"
      "coverage nt = float_round (float_mul 100
          (float_of_nat (fcard (fmdom geneid2gos |\<inter>| fmdom pcGeneID2nt)))
            / float_of_nat (fcard (fmdom pcGeneID2nt)))"
    by blast
  have "float_of_nat (fcard (fmdom pcGeneID2nt)) \<noteq> 0"
    using assms by (simp add: float_of_nat_eq_0_iff)
  then have "float_div (float_mul 100 (float_of_nat (num_covgenes nt)))
                 (float_of_nat (num_allgenes nt)) = Inr (coverage nt)"
    by (simp add: nt float_div_nonzero)
  with nt show ?thesis by (simp add: fmdom_annotation_map)
qed

text \<open>The scenario of the specification satisfies the hypothesis of C1.\<close>

theorem C1_compute_record_witness:
  "fmdom example_pcGeneID2nt \<noteq> {||} \<and>
   (\<exists>nt. fst (compute 9606 example_geneid2gos example_pcGeneID2nt example_objs) = Inr nt
      \<and> taxid nt = 9606
      \<and> num_covgenes nt
            = fcard (fmdom (annotation_map example_geneid2gos example_objs) |\<inter>| fmdom example_pcGeneID2nt)
      \<and> num_allgenes nt = fcard (fmdom example_pcGeneID2nt)
      \<and> float_div (float_mul 100 (float_of_nat (num_covgenes nt)))
            (float_of_nat (num_allgenes nt)) = Inr (coverage nt))"
proof -
  have ne: "fmdom example_pcGeneID2nt \<noteq> {||}" by code_simp
  show ?thesis
    using ne C1_compute_record [OF ne, of 9606 example_geneid2gos example_objs] by simp
qed

text \<open>
  C2. For every annotation map, held by a dictionary whose references point into the store,
  and every non-empty set of protein-coding genes, \<open>num_GOs\<close> is the number of elements of
  the union of the term sets \<open>annotation_map[g]\<close> over exactly the genes \<open>g\<close> that are
  keys of the annotation map and protein-coding; no other term set is part of the union.
\<close>

theorem C2_num_terms:
  assumes "wf_refs geneid2gos h" "fmdom pcGeneID2nt \<noteq> {||}"
  shows "\<exists>nt. fst (compute tx geneid2gos pcGeneID2nt h) = Inr nt
           \<and> num_GOs nt =
               fcard (ffUnion ((\<lambda>g. the (fmlookup (annotation_map geneid2gos h) g)) |`|
                        (fmdom (annotation_map geneid2gos h) |\<inter>| fmdom pcGeneID2nt)))"
  by (simp add: compute_wf [OF assms])

text \<open>The scenario of the specification satisfies the hypotheses of C2.\<close>

theorem C2_num_terms_witness:
  "wf_refs example_geneid2gos example_objs \<and> fmdom example_pcGeneID2nt \<noteq> {||} \<and>
   (\<exists>nt. fst (compute 9606 example_geneid2gos example_pcGeneID2nt example_objs) = Inr nt
      \<and> num_GOs nt =
          fcard (ffUnion ((\<lambda>g. the (fmlookup (annotation_map example_geneid2gos example_objs) g)) |`|
                   (fmdom (annotation_map example_geneid2gos example_objs) |\<inter>|
                    fmdom example_pcGeneID2nt))))"
proof -
  have wf: "wf_refs example_geneid2gos example_objs" by code_simp
  have ne: "fmdom example_pcGeneID2nt \<noteq> {||}" by code_simp
  show ?thesis
    using wf ne C2_num_terms [OF wf ne, of 9606] by simp
qed

text \<open>
  C3, as the specification states it, asks for a guard: with no protein-coding gene, the
  precondition is checked and an \<open>InputError\<close> reported before anything is computed. The
  notebook has no such check. With no protein-coding gene, cell 22 creates the set
  \<^verbatim>\<open>gos_pcgenes\<close>, runs its loop, and fails in the division of line 145, with the
  \<^verbatim>\<open>ZeroDivisionError\<close> of Python's float arithmetic; the guarded computation reports an
  \<open>InputError\<close> and leaves the store as it was.
\<close>

theorem C3_counterexample:
  "compute 9606 example_geneid2gos (fmempty :: (int, unit) fmap) example_objs
     = (Inl (ZeroDivisionError ''float division by zero''), example_geneid2gos, example_objs @ [{||}])
   \<and> guarded_compute 9606 example_geneid2gos (fmempty :: (int, unit) fmap) example_objs
     = (Inl (InputError 9606), example_geneid2gos, example_objs)"
  by code_simp

text \<open>
  C3, amended. When there is no protein-coding gene, \<open>compute\<close> fails with the
  \<^verbatim>\<open>ZeroDivisionError\<close> that the float division of line 145 raises, and the iteration of the
  loop of cell 22 for that organism ends with this exception and appends no tuple to
  \<^verbatim>\<open>cov_data\<close>.
\<close>

theorem C3_empty_division_fault:
  assumes "fmdom pcGeneID2nt = {||}"
  shows "fst (compute tx geneid2gos pcGeneID2nt h) = Inl (ZeroDivisionError ''float division by zero'')
         \<and> fst (cov_body tx pcGeneID2nt st) = Some (ZeroDivisionError ''float division by zero'')
         \<and> cov_data (snd (cov_body tx pcGeneID2nt st)) = cov_data st"
proof -
  have "fst (cov_body tx pcGeneID2nt st) = Some (ZeroDivisionError ''float division by zero'')
         \<and> cov_data (snd (cov_body tx pcGeneID2nt st)) = cov_data st"
    using compute_fst_empty [OF assms, of tx "fst (lookup_GeneID2GOs tx (taxid2asscs st))" "objs st"]
    by (simp add: cov_body_alt Let_def)
  with compute_fst_empty [OF assms, of tx geneid2gos h] show ?thesis by simp
qed

text \<open>The empty dictionary of protein-coding genes satisfies the hypothesis of C3.\<close>

theorem C3_empty_division_fault_witness:
  "fmdom (fmempty :: (int, unit) fmap) = {||} \<and>
   fst (compute 9606 example_geneid2gos (fmempty :: (int, unit) fmap) example_objs)
     = Inl (ZeroDivisionError ''float division by zero'')
   \<and> fst (cov_body 9606 (fmempty :: (int, unit) fmap) example_notebook)
     = Some (ZeroDivisionError ''float division by zero'')
   \<and> cov_data (snd (cov_body 9606 (fmempty :: (int, unit) fmap) example_notebook))
     = cov_data example_notebook"
proof -
  have e: "fmdom (fmempty :: (int, unit) fmap) = {||}" by simp
  show ?thesis
    using e C3_empty_division_fault [OF e, of 9606 example_geneid2gos example_objs example_notebook]
    by simp
qed

text \<open>
  C4, as the specification states it, bounds the coverage by 100.0 for every non-empty set
  of protein-coding genes. The coverage is a float, the division is applied to the rounded
  product \<^verbatim>\<open>100.0*num_pcgene_w_gos\<close>, and for 487166732731899 genes, all of them annotated,
  line 145 computes \<open>100 + 2^-46\<close>, which Python prints as \<^verbatim>\<open>100.00000000000001\<close>.
\<close>

theorem C4_counterexample:
  "fmdom huge_pcGeneID2nt \<noteq> {||}
   \<and> fst (compute 9606 huge_geneid2gos huge_pcGeneID2nt huge_objs)
     = Inr \<lparr>taxid = 9606, num_GOs = 1, num_covgenes = 487166732731899,
            coverage = 100 + 1 / 2 ^ 46, num_allgenes = 487166732731899\<rparr>
   \<and> \<not> (100 + 1 / 2 ^ 46 \<le> (100 :: pyfloat))"
proof -
  have "fst (compute 9606 huge_geneid2gos huge_pcGeneID2nt huge_objs)
     = Inr \<lparr>taxid = 9606, num_GOs = 1, num_covgenes = 487166732731899,
            coverage = 100 + 1 / 2 ^ 46, num_allgenes = 487166732731899\<rparr>"
    unfolding compute_wf [OF huge_wf huge_ne] fmdom_annotation_map huge_dom_pc huge_dom_d
      finter_absorb huge_terms dense_fcard huge_coverage
    by (simp add: fcard_finsert_if)
  then show ?thesis using huge_ne by simp
qed

text \<open>
  C4, amended. For every annotation map and every non-empty set of protein-coding genes,
  the coverage is at least 0.0, and it is at most 100.0 when 100 times the number of
  protein-coding genes is below \<open>2^53\<close> (the product of line 145 is then exact);
  \<open>num_covgenes \<le> num_allgenes\<close>, with equality exactly when every protein-coding gene is a
  key of the annotation map.
\<close>

theorem C4_coverage_bounds:
  assumes "fmdom pcGeneID2nt \<noteq> {||}"
  shows "\<exists>nt. fst (compute tx geneid2gos pcGeneID2nt h) = Inr nt
           \<and> 0 \<le> coverage nt
           \<and> (100 * fcard (fmdom pcGeneID2nt) < 2 ^ 53 \<longrightarrow> coverage nt \<le> 100)
           \<and> num_covgenes nt \<le> num_allgenes nt
           \<and> (num_covgenes nt = num_allgenes nt
                \<longleftrightarrow> fmdom pcGeneID2nt |\<subseteq>| fmdom (annotation_map geneid2gos h))"
proof -
  define n where "n = fcard (fmdom geneid2gos |\<inter>| fmdom pcGeneID2nt)"
  define m where "m = fcard (fmdom pcGeneID2nt)"
  from compute_fst_fields [OF assms, of tx geneid2gos h] obtain nt where
    nt: "fst (compute tx geneid2gos pcGeneID2nt h) = Inr nt"
      "num_covgenes nt = n" "num_allgenes nt = m"
      "coverage nt = float_round (float_mul 100 (float_of_nat n) / float_of_nat m)"
    unfolding n_def m_def by blast
  have le: "n \<le> m" unfolding n_def m_def by (rule fcard_mono) simp
  have "m \<noteq> 0" using assms by (simp add: m_def)
  then have pos: "0 < m" by simp
  have eq: "n = m \<longleftrightarrow> fmdom pcGeneID2nt |\<subseteq>| fmdom geneid2gos"
  proof
    assume "n = m"
    then have "fcard (fmdom pcGeneID2nt) \<le> fcard (fmdom geneid2gos |\<inter>| fmdom pcGeneID2nt)"
      by (simp add: n_def m_def)
    then have "fmdom geneid2gos |\<inter>| fmdom pcGeneID2nt = fmdom pcGeneID2nt"
      by (intro fcard_seteq) simp_all
    then show "fmdom pcGeneID2nt |\<subseteq>| fmdom geneid2gos" by blast
  next
    assume "fmdom pcGeneID2nt |\<subseteq>| fmdom geneid2gos"
    then have "fmdom geneid2gos |\<inter>| fmdom pcGeneID2nt = fmdom pcGeneID2nt" by blast
    then show "n = m" by (simp add: n_def m_def)
  qed
  have lo: "0 \<le> coverage nt" unfolding nt(4) by (rule coverage_nonneg)
  have hi: "100 * m < 2 ^ 53 \<longrightarrow> coverage nt \<le> 100"
    unfolding nt(4) using coverage_le_100 [OF le pos] by blast
  show ?thesis
    using nt(1) lo hi le eq
    by (simp add: nt(2) nt(3) m_def [symmetric] fmdom_annotation_map)
qed

text \<open>The scenario of the specification satisfies the hypotheses of C4, size bound included.\<close>

theorem C4_coverage_bounds_witness:
  "fmdom example_pcGeneID2nt \<noteq> {||}
   \<and> 100 * fcard (fmdom example_pcGeneID2nt) < 2 ^ 53
   \<and> (\<exists>nt. fst (compute 9606 example_geneid2gos example_pcGeneID2nt example_objs) = Inr nt
           \<and> 0 \<le> coverage nt
           \<and> coverage nt \<le> 100
           \<and> num_covgenes nt \<le> num_allgenes nt
           \<and> (num_covgenes nt = num_allgenes nt
                \<longleftrightarrow> fmdom example_pcGeneID2nt |\<subseteq>| fmdom (annotation_map example_geneid2gos example_objs)))"
proof -
  have ne: "fmdom example_pcGeneID2nt \<noteq> {||}" by code_simp
  have c: "fcard (fmdom example_pcGeneID2nt) = 4" by code_simp
  have b: "100 * fcard (fmdom example_pcGeneID2nt) < 2 ^ 53" unfolding c by simp
  show ?thesis
    using ne b C4_coverage_bounds [OF ne, of 9606 example_geneid2gos example_objs] by auto
qed

text \<open>
  C5. Monotonicity: when the annotation map gains a protein-coding gene \<open>g\<close> that it did not
  have, with a set \<open>ts\<close> of terms (empty or not), none of \<open>num_covgenes\<close>, \<open>num_GOs\<close> and
  \<open>coverage\<close> decreases. The annotation maps are those of any two dictionaries and stores
  whose references are valid.
\<close>

theorem C5_monotone:
  assumes wf: "wf_refs geneid2gos h" and wf2: "wf_refs geneid2gos2 h2"
    and ne: "fmdom pcGeneID2nt \<noteq> {||}"
    and g: "g |\<in>| fmdom pcGeneID2nt" "g |\<notin>| fmdom (annotation_map geneid2gos h)"
    and ext: "annotation_map geneid2gos2 h2 = fmupd g ts (annotation_map geneid2gos h)"
  shows "\<exists>nt nt2. fst (compute tx geneid2gos pcGeneID2nt h) = Inr nt
           \<and> fst (compute tx geneid2gos2 pcGeneID2nt h2) = Inr nt2
           \<and> num_covgenes nt \<le> num_covgenes nt2
           \<and> num_GOs nt \<le> num_GOs nt2
           \<and> coverage nt \<le> coverage nt2"
proof -
  define am where "am = annotation_map geneid2gos h"
  define cov where "cov = fmdom am |\<inter>| fmdom pcGeneID2nt"
  have dom2: "fmdom (fmupd g ts am) |\<inter>| fmdom pcGeneID2nt = finsert g cov"
    using g(1) by (auto simp: cov_def)
  have same: "(\<lambda>x. the (fmlookup (fmupd g ts am) x)) |`| cov = (\<lambda>x. the (fmlookup am x)) |`| cov"
  proof (rule covered_terms_cong)
    fix x assume "x |\<in>| cov"
    then have "x \<noteq> g" using g(2) by (auto simp: cov_def am_def)
    then show "fmlookup (fmupd g ts am) x = fmlookup am x" by simp
  qed
  have img: "(\<lambda>x. the (fmlookup (fmupd g ts am) x)) |`| finsert g cov
               = finsert ts ((\<lambda>x. the (fmlookup am x)) |`| cov)"
  proof -
    have "(\<lambda>x. the (fmlookup (fmupd g ts am) x)) |`| finsert g cov
            = finsert (the (fmlookup (fmupd g ts am) g)) ((\<lambda>x. the (fmlookup am x)) |`| cov)"
      by (simp only: fimage_finsert same)
    then show ?thesis by simp
  qed
  define T where "T = ffUnion ((\<lambda>x. the (fmlookup am x)) |`| cov)"
  have terms2: "ffUnion ((\<lambda>x. the (fmlookup (fmupd g ts am) x)) |`| finsert g cov) = ts |\<union>| T"
    by (simp only: img ffunion_insert T_def)
  have n: "fcard cov \<le> fcard (finsert g cov)" by (rule fcard_finsert_le)
  have t: "fcard T \<le> fcard (ts |\<union>| T)"
    by (rule fcard_mono) simp
  have r1: "fst (compute tx geneid2gos pcGeneID2nt h) =
              Inr \<lparr>taxid = tx, num_GOs = fcard T, num_covgenes = fcard cov,
                    coverage = float_round (float_mul 100 (float_of_nat (fcard cov))
                                  / float_of_nat (fcard (fmdom pcGeneID2nt))),
                    num_allgenes = fcard (fmdom pcGeneID2nt)\<rparr>"
    unfolding compute_wf [OF wf ne] am_def [symmetric] cov_def [symmetric] T_def [symmetric]
    by (rule fst_conv)
  have r2: "fst (compute tx geneid2gos2 pcGeneID2nt h2) =
              Inr \<lparr>taxid = tx, num_GOs = fcard (ts |\<union>| T), num_covgenes = fcard (finsert g cov),
                    coverage = float_round (float_mul 100 (float_of_nat (fcard (finsert g cov)))
                                  / float_of_nat (fcard (fmdom pcGeneID2nt))),
                    num_allgenes = fcard (fmdom pcGeneID2nt)\<rparr>"
    unfolding compute_wf [OF wf2 ne] ext am_def [symmetric] dom2 terms2
    by (rule fst_conv)
  show ?thesis
    unfolding r1 r2
    using n t coverage_mono [OF n, of "fcard (fmdom pcGeneID2nt)"] by simp
qed

text \<open>
  The scenario of the specification, and the same with gene 3 annotated by a new set
  object, satisfy the hypotheses of C5.
\<close>

theorem C5_monotone_witness:
  "wf_refs example_geneid2gos example_objs
   \<and> wf_refs (fmupd 3 3 example_geneid2gos) example_objs_more
   \<and> fmdom example_pcGeneID2nt \<noteq> {||}
   \<and> 3 |\<in>| fmdom example_pcGeneID2nt
   \<and> 3 |\<notin>| fmdom (annotation_map example_geneid2gos example_objs)
   \<and> annotation_map (fmupd 3 3 example_geneid2gos) example_objs_more
        = fmupd 3 {|''GO:D''|} (annotation_map example_geneid2gos example_objs)
   \<and> (\<exists>nt nt2. fst (compute 9606 example_geneid2gos example_pcGeneID2nt example_objs) = Inr nt
           \<and> fst (compute 9606 (fmupd 3 3 example_geneid2gos) example_pcGeneID2nt example_objs_more)
                 = Inr nt2
           \<and> num_covgenes nt \<le> num_covgenes nt2
           \<and> num_GOs nt \<le> num_GOs nt2
           \<and> coverage nt \<le> coverage nt2)"
proof -
  have wf: "wf_refs example_geneid2gos example_objs" by code_simp
  have wf2: "wf_refs (fmupd 3 3 example_geneid2gos) example_objs_more" by code_simp
  have ne: "fmdom example_pcGeneID2nt \<noteq> {||}" by code_simp
  have g1: "3 |\<in>| fmdom example_pcGeneID2nt" by code_simp
  have g2: "3 |\<notin>| fmdom (annotation_map example_geneid2gos example_objs)" by code_simp
  have ext: "annotation_map (fmupd 3 3 example_geneid2gos) example_objs_more
        = fmupd 3 {|''GO:D''|} (annotation_map example_geneid2gos example_objs)" by code_simp
  show ?thesis
    using wf wf2 ne g1 g2 ext C5_monotone [OF wf wf2 ne g1 g2 ext, of 9606] by simp
qed

text \<open>
  C6. Exclusion: a gene \<open>g\<close> that is not protein-coding, added to the annotation map or
  given a new set of terms there, changes neither \<open>num_covgenes\<close> nor \<open>num_GOs\<close>, and
  \<open>compute\<close> returns a tuple, not an exception.
\<close>

theorem C6_exclusion:
  assumes wf: "wf_refs geneid2gos h" and wf2: "wf_refs geneid2gos2 h2"
    and ne: "fmdom pcGeneID2nt \<noteq> {||}"
    and g: "g |\<notin>| fmdom pcGeneID2nt"
    and ext: "annotation_map geneid2gos2 h2 = fmupd g ts (annotation_map geneid2gos h)"
  shows "\<exists>nt nt2. fst (compute tx geneid2gos pcGeneID2nt h) = Inr nt
           \<and> fst (compute tx geneid2gos2 pcGeneID2nt h2) = Inr nt2
           \<and> num_covgenes nt2 = num_covgenes nt
           \<and> num_GOs nt2 = num_GOs nt"
proof -
  define am where "am = annotation_map geneid2gos h"
  define cov where "cov = fmdom am |\<inter>| fmdom pcGeneID2nt"
  have dom2: "fmdom (fmupd g ts am) |\<inter>| fmdom pcGeneID2nt = cov"
    using g by (auto simp: cov_def)
  have same: "(\<lambda>x. the (fmlookup (fmupd g ts am) x)) |`| cov = (\<lambda>x. the (fmlookup am x)) |`| cov"
  proof (rule covered_terms_cong)
    fix x assume "x |\<in>| cov"
    then have "x \<noteq> g" using g by (auto simp: cov_def)
    then show "fmlookup (fmupd g ts am) x = fmlookup am x" by simp
  qed
  define T where "T = ffUnion ((\<lambda>x. the (fmlookup am x)) |`| cov)"
  have r1: "fst (compute tx geneid2gos pcGeneID2nt h) =
              Inr \<lparr>taxid = tx, num_GOs = fcard T, num_covgenes = fcard cov,
                    coverage = float_round (float_mul 100 (float_of_nat (fcard cov))
                                  / float_of_nat (fcard (fmdom pcGeneID2nt))),
                    num_allgenes = fcard (fmdom pcGeneID2nt)\<rparr>"
    unfolding compute_wf [OF wf ne] am_def [symmetric] cov_def [symmetric] T_def [symmetric]
    by (rule fst_conv)
  have r2: "fst (compute tx geneid2gos2 pcGeneID2nt h2) =
              Inr \<lparr>taxid = tx, num_GOs = fcard T, num_covgenes = fcard cov,
                    coverage = float_round (float_mul 100 (float_of_nat (fcard cov))
                                  / float_of_nat (fcard (fmdom pcGeneID2nt))),
                    num_allgenes = fcard (fmdom pcGeneID2nt)\<rparr>"
    unfolding compute_wf [OF wf2 ne] ext am_def [symmetric] dom2 same T_def [symmetric]
    by (rule fst_conv)
  show ?thesis
    unfolding r1 r2 by simp
qed

text \<open>
  The scenario of the specification, and the same with gene 7 annotated by a new set
  object, satisfy the hypotheses of C6.
\<close>

theorem C6_exclusion_witness:
  "wf_refs example_geneid2gos example_objs
   \<and> wf_refs (fmupd 7 3 example_geneid2gos) example_objs_more
   \<and> fmdom example_pcGeneID2nt \<noteq> {||}
   \<and> 7 |\<notin>| fmdom example_pcGeneID2nt
   \<and> annotation_map (fmupd 7 3 example_geneid2gos) example_objs_more
        = fmupd 7 {|''GO:D''|} (annotation_map example_geneid2gos example_objs)
   \<and> (\<exists>nt nt2. fst (compute 9606 example_geneid2gos example_pcGeneID2nt example_objs) = Inr nt
           \<and> fst (compute 9606 (fmupd 7 3 example_geneid2gos) example_pcGeneID2nt example_objs_more)
                 = Inr nt2
           \<and> num_covgenes nt2 = num_covgenes nt
           \<and> num_GOs nt2 = num_GOs nt)"
proof -
  have wf: "wf_refs example_geneid2gos example_objs" by code_simp
  have wf2: "wf_refs (fmupd 7 3 example_geneid2gos) example_objs_more" by code_simp
  have ne: "fmdom example_pcGeneID2nt \<noteq> {||}" by code_simp
  have g: "7 |\<notin>| fmdom example_pcGeneID2nt" by code_simp
  have ext: "annotation_map (fmupd 7 3 example_geneid2gos) example_objs_more
        = fmupd 7 {|''GO:D''|} (annotation_map example_geneid2gos example_objs)" by code_simp
  show ?thesis
    using wf wf2 ne g ext C6_exclusion [OF wf wf2 ne g ext, of 9606] by simp
qed

text \<open>
  C7. With \<^verbatim>\<open>protein_coding_ids = {1,2,3,4}\<close> and
  \<^verbatim>\<open>annotation_map = {1: {"GO:A","GO:B"}, 2: {"GO:A"}, 5: {"GO:C"}}\<close>, \<open>compute\<close> returns
  \<open>num_covgenes = 2\<close>, \<open>num_GOs = 2\<close>, \<open>coverage = 50.0\<close> and \<open>num_allgenes = 4\<close>.
\<close>

theorem C7_scenario:
  "annotation_map example_geneid2gos example_objs
     = fmap_of_list [(1, {|''GO:A'', ''GO:B''|}), (2, {|''GO:A''|}), (5, {|''GO:C''|})]
   \<and> fmdom example_pcGeneID2nt = {|1, 2, 3, 4|}
   \<and> fst (compute 9606 example_geneid2gos example_pcGeneID2nt example_objs)
     = Inr \<lparr>taxid = 9606, num_GOs = 2, num_covgenes = 2, coverage = 50, num_allgenes = 4\<rparr>"
  by code_simp

text \<open>
  C8, as the specification states it, gives each row the form
  \<^verbatim>\<open><organism> terms=<N> covered=<M> <COV>% coverage of <TOT> protein-coding genes\<close>. The rows
  that cell 23 prints have no labels \<^verbatim>\<open>terms=\<close> and \<^verbatim>\<open>covered=\<close>, pad the two counts to the
  widths 6 and 7, put two spaces before the percentage and read \<^verbatim>\<open>% GO coverage of\<close>: for the
  tuple of the human genes the notebook prints the first text below, and the form of the
  specification is the second.
\<close>

theorem C8_counterexample:
  "drop 2 (report [example_human])
     = [''  9606 16,436  18,273  87% GO coverage of 20,913 protein-coding genes'']
   \<and> spec_rows [example_human]
     = [''  9606 terms=16,436 covered=18,273 87% coverage of 20,913 protein-coding genes'']
   \<and> drop 2 (report [example_human]) \<noteq> spec_rows [example_human]"
proof -
  have f: "taxid example_human = 9606" "num_GOs example_human = 16436"
    "num_covgenes example_human = 18273" "num_allgenes example_human = 20913"
    by (simp_all add: example_human_def)
  have r: "drop 2 (report [example_human])
     = [''  9606 16,436  18,273  87% GO coverage of 20,913 protein-coding genes'']"
    by (simp add: report_def report_loop_eq report_row_eq f example_human_coverage
          rjust_def commas_def decimal_eval)
  have s: "spec_rows [example_human]
     = [''  9606 terms=16,436 covered=18,273 87% coverage of 20,913 protein-coding genes'']"
    by (simp add: spec_rows_def spec_row_def f example_human_coverage
          format_int_def format_fixed_0 Let_def rjust_def commas_def decimal_eval)
  show ?thesis unfolding r s by simp
qed

text \<open>
  C8, amended. For every list of tuples, cell 23 prints the two header lines and then one
  row for each tuple, in the order of the list. A row is the taxid right-aligned to the
  width 6, a space, the comma-grouped \<open>num_GOs\<close> right-aligned to 6, a space, the
  comma-grouped \<open>num_covgenes\<close> right-aligned to 7, two spaces, the coverage rounded to zero
  decimal places (half to even, after the sign of a negative coverage) right-aligned to 2,
  the text \<^verbatim>\<open>% GO coverage of \<close>, the comma-grouped \<open>num_allgenes\<close>, and the text
  \<^verbatim>\<open> protein-coding genes\<close>.
\<close>

theorem C8_report_rows:
  "report cov =
     ['' taxid    GOs GeneIDs Coverage'',
      ''------ ------ ------- ----------------------''] @
     map (\<lambda>nt.
            rjust 6 (if taxid nt < 0 then CHR ''-'' # decimal (nat (- taxid nt))
                     else decimal (nat (taxid nt))) @
            '' '' @ rjust 6 (commas (decimal (num_GOs nt))) @
            '' '' @ rjust 7 (commas (decimal (num_covgenes nt))) @
            ''  '' @ rjust 2 (if coverage nt < 0
                              then CHR ''-'' # decimal (nat (round_half_even \<bar>coverage nt\<bar>))
                              else decimal (nat (round_half_even \<bar>coverage nt\<bar>))) @
            ''% GO coverage of '' @ commas (decimal (num_allgenes nt)) @
            '' protein-coding genes'') cov"
proof -
  have "map report_row cov =
     map (\<lambda>nt.
            rjust 6 (if taxid nt < 0 then CHR ''-'' # decimal (nat (- taxid nt))
                     else decimal (nat (taxid nt))) @
            '' '' @ rjust 6 (commas (decimal (num_GOs nt))) @
            '' '' @ rjust 7 (commas (decimal (num_covgenes nt))) @
            ''  '' @ rjust 2 (if coverage nt < 0
                              then CHR ''-'' # decimal (nat (round_half_even \<bar>coverage nt\<bar>))
                              else decimal (nat (round_half_even \<bar>coverage nt\<bar>))) @
            ''% GO coverage of '' @ commas (decimal (num_allgenes nt)) @
            '' protein-coding genes'') cov"
    by (rule map_cong [OF refl]) (rule report_row_eq)
  then show ?thesis by (simp only: report_def report_loop_eq)
qed

text \<open>
  For the two tuples of the notebook, C8 gives the four lines that the notebook records as
  the output of cell 23.
\<close>

theorem C8_report_rows_witness:
  "report [example_human, example_fly] =
     ['' taxid    GOs GeneIDs Coverage'',
      ''------ ------ ------- ----------------------'',
      ''  9606 16,436  18,273  87% GO coverage of 20,913 protein-coding genes'',
      ''  7227  6,995  10,591  76% GO coverage of 13,919 protein-coding genes'']"
proof -
  have h: "taxid example_human = 9606" "num_GOs example_human = 16436"
    "num_covgenes example_human = 18273" "num_allgenes example_human = 20913"
    by (simp_all add: example_human_def)
  have f: "taxid example_fly = 7227" "num_GOs example_fly = 6995"
    "num_covgenes example_fly = 10591" "num_allgenes example_fly = 13919"
    by (simp_all add: example_fly_def)
  show ?thesis
    unfolding C8_report_rows [of "[example_human, example_fly]"]
    by (simp add: h f example_human_coverage example_fly_coverage
          rjust_def commas_def decimal_eval)
qed

text \<open>
  C9. For a taxid that the store of associations has no entry for, the lookup of line 131,
  \<^verbatim>\<open>taxid2asscs[taxid]['GeneID2GOs']\<close>, returns an empty dictionary and itself inserts an
  entry for the taxid, holding that empty dictionary under \<^verbatim>\<open>'GeneID2GOs'\<close>, into the store.
  When the organism has a protein-coding gene, the iteration of the loop of cell 22 raises
  nothing, leaves that entry in the store, and appends a tuple with \<open>num_GOs = 0\<close>,
  \<open>num_covgenes = 0\<close> and \<open>coverage = 0.0\<close> to \<^verbatim>\<open>cov_data\<close>.
\<close>

theorem C9_missing_taxid:
  assumes "fmlookup (taxid2asscs st) tx = None" "fmdom pcGeneID2nt \<noteq> {||}"
  shows "lookup_GeneID2GOs tx (taxid2asscs st)
           = (fmempty, fmupd tx (fmupd ''GeneID2GOs'' fmempty fmempty) (taxid2asscs st))
         \<and> cov_body tx pcGeneID2nt st =
           (None,
            st\<lparr>taxid2asscs := fmupd tx (fmupd ''GeneID2GOs'' fmempty fmempty) (taxid2asscs st),
               objs := objs st @ [{||}],
               cov_data := cov_data st @
                 [\<lparr>taxid = tx, num_GOs = 0, num_covgenes = 0, coverage = 0,
                   num_allgenes = fcard (fmdom pcGeneID2nt)\<rparr>]\<rparr>)"
  by (simp add: cov_body_alt Let_def lookup_GeneID2GOs_missing [OF assms(1)]
        compute_no_annotations [OF assms(2)] store_GeneID2GOs_same)

text \<open>
  The example notebook has associations for taxid 9606 only; taxid 7227, with the four
  protein-coding genes of the scenario, satisfies the hypotheses of C9.
\<close>

theorem C9_missing_taxid_witness:
  "fmlookup (taxid2asscs example_notebook) 7227 = None
   \<and> fmdom example_pcGeneID2nt \<noteq> {||}
   \<and> lookup_GeneID2GOs 7227 (taxid2asscs example_notebook)
           = (fmempty,
              fmupd 7227 (fmupd ''GeneID2GOs'' fmempty fmempty) (taxid2asscs example_notebook))
   \<and> cov_body 7227 example_pcGeneID2nt example_notebook =
           (None,
            example_notebook\<lparr>taxid2asscs :=
                 fmupd 7227 (fmupd ''GeneID2GOs'' fmempty fmempty) (taxid2asscs example_notebook),
               objs := objs example_notebook @ [{||}],
               cov_data := cov_data example_notebook @
                 [\<lparr>taxid = 7227, num_GOs = 0, num_covgenes = 0, coverage = 0,
                   num_allgenes = fcard (fmdom example_pcGeneID2nt)\<rparr>]\<rparr>)"
proof -
  have a: "fmlookup (taxid2asscs example_notebook) 7227 = None" by code_simp
  have ne: "fmdom example_pcGeneID2nt \<noteq> {||}" by code_simp
  show ?thesis
    using a ne C9_missing_taxid [OF a ne] by simp
qed

text \<open>
  C10. \<open>compute\<close> leaves its inputs as they were: the dictionary \<^verbatim>\<open>geneid2gos\<close> is returned
  unchanged, every set object that existed before the call has the elements it had (the
  store only gains the new object \<^verbatim>\<open>gos_pcgenes\<close>), so the annotation map after the call is
  the annotation map before it; and an iteration of the loop leaves \<^verbatim>\<open>lst\<close>, which holds the
  dictionaries of protein-coding genes, unchanged. This holds for an empty set of
  protein-coding genes as well.
\<close>

theorem C10_inputs_unchanged:
  assumes "wf_refs geneid2gos h"
  shows "\<exists>res gos_pcgenes.
           compute tx geneid2gos pcGeneID2nt h = (res, geneid2gos, h @ [gos_pcgenes])
           \<and> annotation_map geneid2gos (h @ [gos_pcgenes]) = annotation_map geneid2gos h
           \<and> lst (snd (cov_body tx pcGeneID2nt st)) = lst st"
proof -
  from compute_frame [OF assms, of tx pcGeneID2nt] obtain res gos where
    "compute tx geneid2gos pcGeneID2nt h = (res, geneid2gos, h @ [gos])" by blast
  then show ?thesis
    using annotation_map_append [OF assms, of "[gos]"] cov_body_lst [of tx pcGeneID2nt st]
    by blast
qed

text \<open>The scenario of the specification satisfies the hypothesis of C10.\<close>

theorem C10_inputs_unchanged_witness:
  "wf_refs example_geneid2gos example_objs
   \<and> (\<exists>res gos_pcgenes.
           compute 9606 example_geneid2gos example_pcGeneID2nt example_objs
             = (res, example_geneid2gos, example_objs @ [gos_pcgenes])
           \<and> annotation_map example_geneid2gos (example_objs @ [gos_pcgenes])
               = annotation_map example_geneid2gos example_objs
           \<and> lst (snd (cov_body 9606 example_pcGeneID2nt example_notebook)) = lst example_notebook)"
proof -
  have wf: "wf_refs example_geneid2gos example_objs" by code_simp
  show ?thesis
    using wf C10_inputs_unchanged [OF wf, of 9606 example_pcGeneID2nt example_notebook] by simp
qed

end
